theory Spec2Isabelle
  imports Main "HOL-Library.Word"
begin

section \<open>Values shared by the whole package\<close>

text \<open>
  Go's \<open>error\<close> interface: a nil error is \<open>None\<close>, a non-nil one \<open>Some e\<close>.
  The two context errors are those of package \<open>context\<close>; every other error
  comes from the QUIC session and is opaque to this package.
\<close>

datatype error = ContextCanceled | DeadlineExceeded | SessionError string

text \<open>A \<open>context.Context\<close> is observed only through \<open>ctx.Err()\<close>: nil while it is live.\<close>

type_synonym ctx = "error option"

definition Background :: ctx where
  "Background = None"

type_synonym addr = nat
type_synonym handle = nat

datatype kind = Bidi | Uni

text \<open>
  Modelled from the spec: the \<open>Stream\<close> type and its constructor \<open>newStream\<close>
  are not part of \<open>conn.go\<close>. The spec says a Stream wraps a send-side handle
  and/or a receive-side handle, and that a null send side denotes a unidirectional
  incoming stream. \<open>newStream(c, s, r)\<close> is called in \<open>NewStream\<close> with the result
  of \<open>OpenUniStream\<close> (a send stream) second and nil third, so the second argument is
  the send side and the third the receive side.
\<close>

record stream =
  st_conn :: addr
  st_send :: "handle option"
  st_recv :: "handle option"

definition newStream :: "addr \<Rightarrow> handle option \<Rightarrow> handle option \<Rightarrow> stream" where
  "newStream c s r = \<lparr>st_conn = c, st_send = s, st_recv = r\<rparr>"

section \<open>The connection and its goroutines\<close>

text \<open>
  Program points of the goroutines that work on one \<open>Conn\<close>.

  An accept loop (the two closures given to \<open>eg.Go\<close>) is about to call, or blocked in,
  the session's accept (\<open>LAccept\<close>); blocked in \<open>c.streams <- newStream(...)\<close>
  (\<open>LSend\<close>); has returned a non-nil error to the errgroup wrapper (\<open>LReturn\<close>); or
  has gone through \<open>errOnce\<close> and \<open>wg.Done\<close> (\<open>LDone\<close>).
\<close>

datatype lpc = LIdle | LAccept | LSend stream | LReturn error | LDone

text \<open>The goroutine \<open>go func() { <-c.done; cancel() }()\<close>.\<close>

datatype wpc = WIdle | WWait | WCancel | WDone

text \<open>
  \<open>acceptStreams\<close> itself: not yet run (\<open>MStart\<close>), blocked in \<open>eg.Wait()\<close>,
  holding the error \<open>eg.Wait()\<close> returned, holding the write lock, having assigned
  \<open>c.streamErr\<close> with the deferred \<open>Unlock\<close> to run, then before the deferred
  \<open>cancel()\<close>, before the deferred \<open>close(c.streams)\<close>, and finished. Deferred
  calls run in the reverse order of their \<open>defer\<close> statements.
\<close>

datatype mpc = MStart | MWait | MGot "error option" | MLocked error | MAssigned
  | MDeferCancel | MDeferClose | MExit

text \<open>
  A caller inside \<open>AcceptStream(ctx)\<close>: in the \<open>select\<close> with its context, having
  received \<open>ok = false\<close> from \<open>c.streams\<close>, holding the read lock, and having
  evaluated the return value \<open>c.streamErr\<close> with the deferred \<open>RUnlock\<close> pending.
\<close>

datatype cpc = CIdle | CSelect ctx | CClosed | CRLocked | CRead "error option"

text \<open>
  A caller inside \<open>CloseWithError(code, desc)\<close>: before \<open>c.closer.Do\<close>, and before
  \<open>c.session.CloseWithError\<close>.
\<close>

datatype kpc = KIdle | KOnce "64 word" string | KSession "64 word" string

text \<open>Which branch of \<open>AcceptStream\<close> a call returned through.\<close>

datatype via = ViaStream | ViaCtx | ViaClosed

text \<open>
  The \<open>Conn\<close> struct, the state of the values \<open>acceptStreams\<close> creates (the two
  contexts and the errgroup), the goroutines, and the session as this package sees it.
  \<open>c.streams\<close> is unbuffered, so its whole state is whether it is closed; a send and
  a receive happen in one step. \<open>sess_closes\<close> lists the invocations of the
  session's \<open>CloseWithError\<close>: the caller, the code and description it passed, and
  what the session answered. The fields from \<open>arrived\<close> on are history variables: no
  step reads them.
\<close>

record conn =
  self :: addr
  session :: nat
  streams_closed :: bool
  streamErr :: "error option"
  streamLock_w :: bool
  streamLock_r :: nat
  closer :: bool
  done_closed :: bool
  ctx_cancelled :: bool
  eg_cancelled :: bool
  eg_once :: bool
  eg_err :: "error option"
  main_pc :: mpc
  watch_pc :: wpc
  loop_pc :: "kind \<Rightarrow> lpc"
  callers :: "nat \<Rightarrow> cpc"
  closers :: "nat \<Rightarrow> kpc"
  sess_queue :: "kind \<Rightarrow> handle list"
  sess_closes :: "(nat \<times> 64 word \<times> string \<times> error option) list"
  arrived :: "kind \<Rightarrow> handle list"
  delivered :: "(kind \<times> stream) list"
  returns :: "(nat \<times> via \<times> stream option \<times> error option) list"
  close_calls :: "(nat \<times> 64 word \<times> string) list"
  close_returns :: "(nat \<times> error option) list"
  errs_observed :: "(kind \<times> error) list"
  done_closes :: nat
  streamErr_writes :: nat

text \<open>
  \<open>newConn\<close>: the struct literal with two fresh open channels, and
  \<open>go c.acceptStreams()\<close>, which leaves that goroutine at its start. \<open>a\<close> is the
  address of the new struct.
\<close>

definition newConn :: "addr \<Rightarrow> nat \<Rightarrow> conn" where
  "newConn a sess = \<lparr>
     self = a, session = sess,
     streams_closed = False, streamErr = None,
     streamLock_w = False, streamLock_r = 0,
     closer = False, done_closed = False,
     ctx_cancelled = False, eg_cancelled = False, eg_once = False, eg_err = None,
     main_pc = MStart, watch_pc = WIdle, loop_pc = (\<lambda>_. LIdle),
     callers = (\<lambda>_. CIdle), closers = (\<lambda>_. KIdle),
     sess_queue = (\<lambda>_. []), sess_closes = [],
     arrived = (\<lambda>_. []), delivered = [], returns = [],
     close_calls = [], close_returns = [],
     errs_observed = [], done_closes = 0, streamErr_writes = 0\<rparr>"

subsection \<open>The session and the errgroup, as the package uses them\<close>

text \<open>
  The context the two loops pass to the session is the one \<open>errgroup.WithContext\<close>
  derived from the context of \<open>context.WithCancel\<close>: it is done when the parent is
  cancelled or when the errgroup cancels.
\<close>

definition loops_ctx_done :: "conn \<Rightarrow> bool" where
  "loops_ctx_done s = (ctx_cancelled s \<or> eg_cancelled s)"

text \<open>
  \<open>session.AcceptStream(ctx)\<close> and \<open>session.AcceptUniStream(ctx)\<close> belong to
  quic-go. A call returns in one of three ways: with the oldest stream of its kind that
  the peer has opened; with the context's error once the context is done; or with an
  error of the session. \<open>None\<close> means the call cannot return this way now.
\<close>

datatype accept_outcome = Arrives | Cancelled | Fails error

definition session_accept ::
  "kind \<Rightarrow> accept_outcome \<Rightarrow> conn \<Rightarrow> ((handle option \<times> error option) \<times> conn) option" where
  "session_accept k out s =
     (case out of
        Arrives \<Rightarrow>
          (case sess_queue s k of [] \<Rightarrow> None
           | h # q \<Rightarrow> Some ((Some h, None), s\<lparr>sess_queue := (sess_queue s)(k := q)\<rparr>))
      | Cancelled \<Rightarrow>
          (if loops_ctx_done s then Some ((None, Some ContextCanceled), s) else None)
      | Fails e \<Rightarrow> Some ((None, Some e), s))"

text \<open>
  One round of each loop after its accept call returned \<open>(s, err)\<close>:
  \<open>if err != nil { return err }\<close>, else the send of the new Stream.
\<close>

definition bidi_loop_body :: "addr \<Rightarrow> handle option \<times> error option \<Rightarrow> lpc" where
  "bidi_loop_body c r =
     (case r of (s, err) \<Rightarrow>
        (case err of Some e \<Rightarrow> LReturn e | None \<Rightarrow> LSend (newStream c s s)))"

definition uni_loop_body :: "addr \<Rightarrow> handle option \<times> error option \<Rightarrow> lpc" where
  "uni_loop_body c r =
     (case r of (s, err) \<Rightarrow>
        (case err of Some e \<Rightarrow> LReturn e | None \<Rightarrow> LSend (newStream c None s)))"

definition loop_body :: "kind \<Rightarrow> addr \<Rightarrow> handle option \<times> error option \<Rightarrow> lpc" where
  "loop_body k = (case k of Bidi \<Rightarrow> bidi_loop_body | Uni \<Rightarrow> uni_loop_body)"

text \<open>
  \<open>errgroup.Group.Go\<close> wraps the closure: when it returns a non-nil error,
  \<open>errOnce.Do\<close> stores the error and cancels the group's context if it is the first;
  then \<open>wg.Done\<close>.
\<close>

definition eg_record :: "kind \<Rightarrow> error \<Rightarrow> conn \<Rightarrow> conn" where
  "eg_record k e s =
     (let s1 = (if eg_once s then s
                else s\<lparr>eg_once := True, eg_err := Some e, eg_cancelled := True\<rparr>)
      in s1\<lparr>errs_observed := errs_observed s1 @ [(k, e)]\<rparr>)"

subsection \<open>The steps\<close>

text \<open>
  One event is one atomic step of one goroutine, or of the environment (the peer, a
  caller's context, what the session answers). A step that is not possible in a state
  leaves it as it is. Every interleaving of the goroutines is a list of events.
\<close>

datatype event =
    PeerOpens kind handle
  | MainStarts
  | LoopAccepts kind accept_outcome
  | Handoff kind nat
  | LoopErrOnce kind
  | WatchDone
  | WatchCancel
  | MainWaitReturns
  | MainCheckErr
  | MainAssign
  | MainUnlock
  | MainCancel
  | MainCloseStreams
  | CallAcceptStream nat ctx
  | CtxDone nat error
  | SelectCtxDone nat
  | SelectClosed nat
  | CallerRLock nat
  | CallerRead nat
  | CallerRUnlock nat
  | CallCloseWithError nat "64 word" string
  | CallClose nat
  | CloserOnce nat
  | CloserSession nat "error option"

text \<open>
  \<^item> \<open>PeerOpens\<close>: the peer opens a stream; the session queues it for accept.
  \<^item> \<open>MainStarts\<close>: \<open>acceptStreams\<close> up to \<open>eg.Wait()\<close>: the two contexts, the
    goroutine waiting on \<open>c.done\<close>, the two loops. Nothing else can see the states in
    between.
  \<^item> \<open>LoopAccepts\<close>: a loop's accept call returns and the loop acts on the result.
  \<^item> \<open>Handoff k i\<close>: the send of loop \<open>k\<close> meets the receive in caller \<open>i\<close>'s
    \<open>select\<close>, which returns \<open>s, nil\<close>. A send on a closed channel would panic;
    the step is left out there, and the channel is closed only when both loops are done
    (shown below), so no loop is sending then.
  \<^item> \<open>LoopErrOnce\<close>: the errgroup wrapper after the closure returned.
  \<^item> \<open>WatchDone\<close>, \<open>WatchCancel\<close>: \<open><-c.done\<close>, then \<open>cancel()\<close>.
  \<^item> \<open>MainWaitReturns\<close>: \<open>eg.Wait()\<close> returns once both loops are done; it cancels
    the group's context and returns the stored error.
  \<^item> \<open>MainCheckErr\<close>: \<open>if err != nil\<close> with \<open>c.streamLock.Lock()\<close>, which waits
    for the lock to be free; a nil error goes straight to the deferred calls.
  \<^item> \<open>MainAssign\<close>: \<open>c.streamErr = err\<close>.
  \<^item> \<open>MainUnlock\<close>, \<open>MainCancel\<close>, \<open>MainCloseStreams\<close>: the deferred calls, last
    deferred first.
  \<^item> \<open>CallAcceptStream i cx\<close>: caller \<open>i\<close> enters \<open>AcceptStream\<close> with a context
    in state \<open>cx\<close>; \<open>CtxDone\<close>: that context becomes done.
  \<^item> \<open>SelectCtxDone\<close>: the \<open>select\<close> takes \<open><-ctx.Done()\<close> and returns
    \<open>nil, ctx.Err()\<close>.
  \<^item> \<open>SelectClosed\<close>: the \<open>select\<close> receives \<open>ok = false\<close> from the closed
    channel; \<open>CallerRLock\<close>, \<open>CallerRead\<close>, \<open>CallerRUnlock\<close>: \<open>RLock\<close>, the
    evaluation of \<open>c.streamErr\<close> for the return, the deferred \<open>RUnlock\<close> and the
    return.
  \<^item> \<open>CallCloseWithError\<close>, \<open>CallClose\<close>: a caller enters; \<open>Close\<close> is
    \<open>CloseWithError(0, "")\<close>. \<open>CloserOnce\<close>: \<open>c.closer.Do(close(c.done))\<close>.
    \<open>CloserSession j r\<close>: \<open>return c.session.CloseWithError(code, desc)\<close>, the
    session answering \<open>r\<close>.
\<close>

definition enter_CloseWithError :: "nat \<Rightarrow> 64 word \<Rightarrow> string \<Rightarrow> conn \<Rightarrow> conn" where
  "enter_CloseWithError j code desc s =
     (if closers s j = KIdle
      then s\<lparr>closers := (closers s)(j := KOnce code desc),
             close_calls := close_calls s @ [(j, code, desc)]\<rparr>
      else s)"

fun step :: "event \<Rightarrow> conn \<Rightarrow> conn" where
  "step (PeerOpens k h) s =
     s\<lparr>sess_queue := (sess_queue s)(k := sess_queue s k @ [h]),
       arrived := (arrived s)(k := arrived s k @ [h])\<rparr>"
| "step MainStarts s =
     (if main_pc s = MStart
      then s\<lparr>main_pc := MWait, watch_pc := WWait, loop_pc := (\<lambda>_. LAccept)\<rparr>
      else s)"
| "step (LoopAccepts k out) s =
     (if loop_pc s k = LAccept then
        (case session_accept k out s of None \<Rightarrow> s
         | Some (r, s1) \<Rightarrow> s1\<lparr>loop_pc := (loop_pc s1)(k := loop_body k (self s1) r)\<rparr>)
      else s)"
| "step (Handoff k i) s =
     (case loop_pc s k of
        LSend st \<Rightarrow>
          (case callers s i of
             CSelect cx \<Rightarrow>
               (if streams_closed s then s
                else s\<lparr>loop_pc := (loop_pc s)(k := LAccept),
                       callers := (callers s)(i := CIdle),
                       delivered := delivered s @ [(k, st)],
                       returns := returns s @ [(i, ViaStream, Some st, None)]\<rparr>)
           | _ \<Rightarrow> s)
      | _ \<Rightarrow> s)"
| "step (LoopErrOnce k) s =
     (case loop_pc s k of
        LReturn e \<Rightarrow> (eg_record k e s)\<lparr>loop_pc := (loop_pc s)(k := LDone)\<rparr>
      | _ \<Rightarrow> s)"
| "step WatchDone s =
     (if watch_pc s = WWait \<and> done_closed s then s\<lparr>watch_pc := WCancel\<rparr> else s)"
| "step WatchCancel s =
     (if watch_pc s = WCancel then s\<lparr>ctx_cancelled := True, watch_pc := WDone\<rparr> else s)"
| "step MainWaitReturns s =
     (if main_pc s = MWait \<and> loop_pc s Bidi = LDone \<and> loop_pc s Uni = LDone
      then s\<lparr>eg_cancelled := True, main_pc := MGot (eg_err s)\<rparr>
      else s)"
| "step MainCheckErr s =
     (case main_pc s of
        MGot err \<Rightarrow>
          (case err of
             None \<Rightarrow> s\<lparr>main_pc := MDeferCancel\<rparr>
           | Some e \<Rightarrow>
               (if \<not> streamLock_w s \<and> streamLock_r s = 0
                then s\<lparr>streamLock_w := True, main_pc := MLocked e\<rparr>
                else s))
      | _ \<Rightarrow> s)"
| "step MainAssign s =
     (case main_pc s of
        MLocked e \<Rightarrow>
          s\<lparr>streamErr := Some e, streamErr_writes := Suc (streamErr_writes s),
            main_pc := MAssigned\<rparr>
      | _ \<Rightarrow> s)"
| "step MainUnlock s =
     (if main_pc s = MAssigned then s\<lparr>streamLock_w := False, main_pc := MDeferCancel\<rparr>
      else s)"
| "step MainCancel s =
     (if main_pc s = MDeferCancel then s\<lparr>ctx_cancelled := True, main_pc := MDeferClose\<rparr>
      else s)"
| "step MainCloseStreams s =
     (if main_pc s = MDeferClose then s\<lparr>streams_closed := True, main_pc := MExit\<rparr>
      else s)"
| "step (CallAcceptStream i cx) s =
     (if callers s i = CIdle then s\<lparr>callers := (callers s)(i := CSelect cx)\<rparr> else s)"
| "step (CtxDone i e) s =
     (if callers s i = CSelect None then s\<lparr>callers := (callers s)(i := CSelect (Some e))\<rparr>
      else s)"
| "step (SelectCtxDone i) s =
     (case callers s i of
        CSelect (Some e) \<Rightarrow>
          s\<lparr>callers := (callers s)(i := CIdle),
            returns := returns s @ [(i, ViaCtx, None, Some e)]\<rparr>
      | _ \<Rightarrow> s)"
| "step (SelectClosed i) s =
     (case callers s i of
        CSelect cx \<Rightarrow>
          (if streams_closed s then s\<lparr>callers := (callers s)(i := CClosed)\<rparr> else s)
      | _ \<Rightarrow> s)"
| "step (CallerRLock i) s =
     (if callers s i = CClosed \<and> \<not> streamLock_w s
      then s\<lparr>streamLock_r := Suc (streamLock_r s), callers := (callers s)(i := CRLocked)\<rparr>
      else s)"
| "step (CallerRead i) s =
     (if callers s i = CRLocked then s\<lparr>callers := (callers s)(i := CRead (streamErr s))\<rparr>
      else s)"
| "step (CallerRUnlock i) s =
     (case callers s i of
        CRead err \<Rightarrow>
          s\<lparr>streamLock_r := streamLock_r s - 1,
            callers := (callers s)(i := CIdle),
            returns := returns s @ [(i, ViaClosed, None, err)]\<rparr>
      | _ \<Rightarrow> s)"
| "step (CallCloseWithError j code desc) s = enter_CloseWithError j code desc s"
| "step (CallClose j) s = enter_CloseWithError j 0 [] s"
| "step (CloserOnce j) s =
     (case closers s j of
        KOnce code desc \<Rightarrow>
          (let s1 = (if closer s then s
                     else s\<lparr>closer := True, done_closed := True,
                            done_closes := Suc (done_closes s)\<rparr>)
           in s1\<lparr>closers := (closers s1)(j := KSession code desc)\<rparr>)
      | _ \<Rightarrow> s)"
| "step (CloserSession j r) s =
     (case closers s j of
        KSession code desc \<Rightarrow>
          s\<lparr>closers := (closers s)(j := KIdle),
            sess_closes := sess_closes s @ [(j, code, desc, r)],
            close_returns := close_returns s @ [(j, r)]\<rparr>
      | _ \<Rightarrow> s)"

definition run :: "event list \<Rightarrow> conn \<Rightarrow> conn" where
  "run evs s = fold step evs s"

subsection \<open>The steps in rule form\<close>

text \<open>
  What each loop sends for a stream handle \<open>h\<close> the session returned: the arguments
  the two closures give to \<open>newStream\<close>.
\<close>

definition stream_of :: "kind \<Rightarrow> addr \<Rightarrow> handle \<Rightarrow> stream" where
  "stream_of k c h =
     (case k of Bidi \<Rightarrow> newStream c (Some h) (Some h) | Uni \<Rightarrow> newStream c None (Some h))"

text \<open>
  The steps that are possible, one rule for each way an event changes the state.
  \<open>step_moves\<close> below shows that \<open>step\<close> either leaves the state as it is or
  takes one of these; the invariants are proved by induction over the rules.
\<close>

inductive moves :: "conn \<Rightarrow> conn \<Rightarrow> bool" where
  PeerOpens: "moves s (s\<lparr>sess_queue := (sess_queue s)(k := sess_queue s k @ [h]),
                      arrived := (arrived s)(k := arrived s k @ [h])\<rparr>)"
| MainStarts: "main_pc s = MStart \<Longrightarrow>
     moves s (s\<lparr>main_pc := MWait, watch_pc := WWait, loop_pc := (\<lambda>_. LAccept)\<rparr>)"
| AcceptArrives: "loop_pc s k = LAccept \<Longrightarrow> sess_queue s k = h # q \<Longrightarrow>
     moves s (s\<lparr>sess_queue := (sess_queue s)(k := q),
                      loop_pc := (loop_pc s)(k := LSend (stream_of k (self s) h))\<rparr>)"
| AcceptCancelled: "loop_pc s k = LAccept \<Longrightarrow> loops_ctx_done s \<Longrightarrow>
     moves s (s\<lparr>loop_pc := (loop_pc s)(k := LReturn ContextCanceled)\<rparr>)"
| AcceptFails: "loop_pc s k = LAccept \<Longrightarrow>
     moves s (s\<lparr>loop_pc := (loop_pc s)(k := LReturn err)\<rparr>)"
| Handoff: "loop_pc s k = LSend st \<Longrightarrow> callers s i = CSelect cx \<Longrightarrow> \<not> streams_closed s \<Longrightarrow>
     moves s (s\<lparr>loop_pc := (loop_pc s)(k := LAccept),
                      callers := (callers s)(i := CIdle),
                      delivered := delivered s @ [(k, st)],
                      returns := returns s @ [(i, ViaStream, Some st, None)]\<rparr>)"
| ErrOnceFirst: "loop_pc s k = LReturn err \<Longrightarrow> \<not> eg_once s \<Longrightarrow>
     moves s (s\<lparr>eg_once := True, eg_err := Some err, eg_cancelled := True,
                      errs_observed := errs_observed s @ [(k, err)],
                      loop_pc := (loop_pc s)(k := LDone)\<rparr>)"
| ErrOnceLater: "loop_pc s k = LReturn err \<Longrightarrow> eg_once s \<Longrightarrow>
     moves s (s\<lparr>errs_observed := errs_observed s @ [(k, err)],
                      loop_pc := (loop_pc s)(k := LDone)\<rparr>)"
| WatchDone: "watch_pc s = WWait \<Longrightarrow> done_closed s \<Longrightarrow> moves s (s\<lparr>watch_pc := WCancel\<rparr>)"
| WatchCancel: "watch_pc s = WCancel \<Longrightarrow>
     moves s (s\<lparr>ctx_cancelled := True, watch_pc := WDone\<rparr>)"
| MainWaitReturns: "main_pc s = MWait \<Longrightarrow> loop_pc s Bidi = LDone \<Longrightarrow> loop_pc s Uni = LDone \<Longrightarrow>
     moves s (s\<lparr>eg_cancelled := True, main_pc := MGot (eg_err s)\<rparr>)"
| MainNoErr: "main_pc s = MGot None \<Longrightarrow> moves s (s\<lparr>main_pc := MDeferCancel\<rparr>)"
| MainLock: "main_pc s = MGot (Some err) \<Longrightarrow> \<not> streamLock_w s \<Longrightarrow> streamLock_r s = 0 \<Longrightarrow>
     moves s (s\<lparr>streamLock_w := True, main_pc := MLocked err\<rparr>)"
| MainAssign: "main_pc s = MLocked err \<Longrightarrow>
     moves s (s\<lparr>streamErr := Some err, streamErr_writes := Suc (streamErr_writes s),
                      main_pc := MAssigned\<rparr>)"
| MainUnlock: "main_pc s = MAssigned \<Longrightarrow>
     moves s (s\<lparr>streamLock_w := False, main_pc := MDeferCancel\<rparr>)"
| MainCancel: "main_pc s = MDeferCancel \<Longrightarrow>
     moves s (s\<lparr>ctx_cancelled := True, main_pc := MDeferClose\<rparr>)"
| MainCloseStreams: "main_pc s = MDeferClose \<Longrightarrow>
     moves s (s\<lparr>streams_closed := True, main_pc := MExit\<rparr>)"
| CallAcceptStream: "callers s i = CIdle \<Longrightarrow>
     moves s (s\<lparr>callers := (callers s)(i := CSelect cx)\<rparr>)"
| CtxDone: "callers s i = CSelect None \<Longrightarrow>
     moves s (s\<lparr>callers := (callers s)(i := CSelect (Some err))\<rparr>)"
| SelectCtxDone: "callers s i = CSelect (Some err) \<Longrightarrow>
     moves s (s\<lparr>callers := (callers s)(i := CIdle),
                      returns := returns s @ [(i, ViaCtx, None, Some err)]\<rparr>)"
| SelectClosed: "callers s i = CSelect cx \<Longrightarrow> streams_closed s \<Longrightarrow>
     moves s (s\<lparr>callers := (callers s)(i := CClosed)\<rparr>)"
| CallerRLock: "callers s i = CClosed \<Longrightarrow> \<not> streamLock_w s \<Longrightarrow>
     moves s (s\<lparr>streamLock_r := Suc (streamLock_r s),
                      callers := (callers s)(i := CRLocked)\<rparr>)"
| CallerRead: "callers s i = CRLocked \<Longrightarrow>
     moves s (s\<lparr>callers := (callers s)(i := CRead (streamErr s))\<rparr>)"
| CallerRUnlock: "callers s i = CRead err \<Longrightarrow>
     moves s (s\<lparr>streamLock_r := streamLock_r s - 1,
                      callers := (callers s)(i := CIdle),
                      returns := returns s @ [(i, ViaClosed, None, err)]\<rparr>)"
| CallClose: "closers s j = KIdle \<Longrightarrow>
     moves s (s\<lparr>closers := (closers s)(j := KOnce code desc),
                      close_calls := close_calls s @ [(j, code, desc)]\<rparr>)"
| CloserOnceFirst: "closers s j = KOnce code desc \<Longrightarrow> \<not> closer s \<Longrightarrow>
     moves s (s\<lparr>closer := True, done_closed := True, done_closes := Suc (done_closes s),
                      closers := (closers s)(j := KSession code desc)\<rparr>)"
| CloserOnceLater: "closers s j = KOnce code desc \<Longrightarrow> closer s \<Longrightarrow>
     moves s (s\<lparr>closers := (closers s)(j := KSession code desc)\<rparr>)"
| CloserSession: "closers s j = KSession code desc \<Longrightarrow>
     moves s (s\<lparr>closers := (closers s)(j := KIdle),
                      sess_closes := sess_closes s @ [(j, code, desc, r)],
                      close_returns := close_returns s @ [(j, r)]\<rparr>)"

subsection \<open>Invariants\<close>

text \<open>
  The errgroup: the group's context is cancelled once \<open>errOnce\<close> has fired; a loop
  is done only after going through \<open>errOnce\<close>; the stored error is the one of the
  first loop to get there. \<open>errs_observed\<close> lists the errors the loops returned, in
  the order they went through \<open>errOnce\<close>.
\<close>

definition inv_eg :: "conn \<Rightarrow> bool" where
  "inv_eg s =
     ((eg_once s \<longrightarrow> eg_cancelled s)
    \<and> (\<forall>k. loop_pc s k = LDone \<longrightarrow> eg_once s)
    \<and> (eg_once s \<longleftrightarrow> errs_observed s \<noteq> [])
    \<and> eg_err s = (case errs_observed s of [] \<Rightarrow> None | x # xs \<Rightarrow> Some (snd x)))"

fun after_assign :: "mpc \<Rightarrow> bool" where
  "after_assign MAssigned = True"
| "after_assign MDeferCancel = True"
| "after_assign MDeferClose = True"
| "after_assign MExit = True"
| "after_assign _ = False"

fun past_wait :: "mpc \<Rightarrow> bool" where
  "past_wait MStart = False"
| "past_wait MWait = False"
| "past_wait _ = True"

text \<open>
  \<open>acceptStreams\<close>: past \<open>eg.Wait()\<close> both loops are done; the error it holds is the
  group's; \<open>c.streamErr\<close> is nil before the assignment and the group's error after
  it; \<open>c.streams\<close> is closed exactly when the function has finished.
\<close>

definition inv_main :: "conn \<Rightarrow> bool" where
  "inv_main s =
     ((past_wait (main_pc s) \<longrightarrow> loop_pc s Bidi = LDone \<and> loop_pc s Uni = LDone)
    \<and> (\<forall>eo. main_pc s = MGot eo \<longrightarrow> eo = eg_err s)
    \<and> (\<forall>e. main_pc s = MLocked e \<longrightarrow> eg_err s = Some e)
    \<and> (after_assign (main_pc s) \<longrightarrow>
          streamErr s = eg_err s \<and> eg_err s \<noteq> None \<and> streamErr_writes s = 1)
    \<and> (\<not> after_assign (main_pc s) \<longrightarrow> streamErr s = None \<and> streamErr_writes s = 0)
    \<and> (streams_closed s \<longleftrightarrow> main_pc s = MExit))"

text \<open>
  The goroutines \<open>acceptStreams\<close> starts exist exactly when it has started.
\<close>

definition inv_start :: "conn \<Rightarrow> bool" where
  "inv_start s =
     ((main_pc s = MStart \<longrightarrow> watch_pc s = WIdle \<and> (\<forall>k. loop_pc s k = LIdle))
    \<and> (main_pc s \<noteq> MStart \<longrightarrow> watch_pc s \<noteq> WIdle \<and> (\<forall>k. loop_pc s k \<noteq> LIdle)))"

text \<open>
  The goroutine waiting on \<open>c.done\<close> moves on only when the channel is closed, and
  has cancelled the context when it is finished; \<open>c.done\<close> is closed exactly when
  \<open>c.closer\<close> has fired, which happened at most once.
\<close>

definition inv_watch :: "conn \<Rightarrow> bool" where
  "inv_watch s =
     ((watch_pc s = WCancel \<or> watch_pc s = WDone \<longrightarrow> done_closed s)
    \<and> (watch_pc s = WDone \<longrightarrow> ctx_cancelled s)
    \<and> (closer s \<longleftrightarrow> done_closed s)
    \<and> done_closes s = (if closer s then 1 else 0))"

fun saw_closed :: "cpc \<Rightarrow> bool" where
  "saw_closed CClosed = True"
| "saw_closed CRLocked = True"
| "saw_closed (CRead err) = True"
| "saw_closed _ = False"

text \<open>
  A caller of \<open>AcceptStream\<close> is past the receive of \<open>ok = false\<close> only when
  \<open>c.streams\<close> is closed, and the value it read is \<open>c.streamErr\<close>.
\<close>

definition inv_seen :: "nat \<Rightarrow> conn \<Rightarrow> bool" where
  "inv_seen i s =
     ((saw_closed (callers s i) \<longrightarrow> streams_closed s)
    \<and> (\<forall>err. callers s i = CRead err \<longrightarrow> err = streamErr s))"

text \<open>
  A call that returned through the closed channel returned \<open>nil, c.streamErr\<close>.
\<close>

definition closed_return :: "conn \<Rightarrow> nat \<times> via \<times> stream option \<times> error option \<Rightarrow> bool" where
  "closed_return s r =
     (fst (snd r) = ViaClosed \<longrightarrow>
        fst (snd (snd r)) = None \<and> snd (snd (snd r)) = streamErr s \<and> streams_closed s)"

definition inv_rets :: "nat \<times> via \<times> stream option \<times> error option \<Rightarrow> conn \<Rightarrow> bool" where
  "inv_rets r s = (r \<in> set (returns s) \<longrightarrow> closed_return s r)"

text \<open>
  The code and description of one invocation of the session's \<open>CloseWithError\<close>, and
  who returned what from it.
\<close>

definition close_args :: "nat \<times> 64 word \<times> string \<times> error option \<Rightarrow> 64 word \<times> string" where
  "close_args x = (fst (snd x), fst (snd (snd x)))"

definition close_result :: "nat \<times> 64 word \<times> string \<times> error option \<Rightarrow> nat \<times> error option" where
  "close_result x = (fst x, snd (snd (snd x)))"

text \<open>The arguments of the call a caller is inside, if it is inside one.\<close>

fun pending_close :: "kpc \<Rightarrow> (64 word \<times> string) list" where
  "pending_close KIdle = []"
| "pending_close (KOnce code desc) = [(code, desc)]"
| "pending_close (KSession code desc) = [(code, desc)]"

text \<open>
  The arguments of the calls caller \<open>j\<close> made, and the session closes it invoked, both
  in the order they happened.
\<close>

definition calls_by :: "nat \<Rightarrow> conn \<Rightarrow> (64 word \<times> string) list" where
  "calls_by j s = map snd (filter (\<lambda>c. fst c = j) (close_calls s))"

definition closes_by :: "nat \<Rightarrow> conn \<Rightarrow> (nat \<times> 64 word \<times> string \<times> error option) list" where
  "closes_by j s = filter (\<lambda>x. fst x = j) (sess_closes s)"

text \<open>
  \<open>CloseWithError\<close>: the calls that returned are, in order, the invocations of the
  session's close, each returning what the session answered to it; and the calls caller
  \<open>j\<close> made are, in order and with the same code and description, the session closes
  it invoked, followed by the call it is inside.
\<close>

definition inv_close :: "nat \<Rightarrow> conn \<Rightarrow> bool" where
  "inv_close j s =
     (close_returns s = map close_result (sess_closes s)
    \<and> calls_by j s = map close_args (closes_by j s) @ pending_close (closers s j))"

fun in_hand :: "lpc \<Rightarrow> stream list" where
  "in_hand (LSend st) = [st]"
| "in_hand _ = []"

definition of_kind :: "kind \<Rightarrow> (kind \<times> stream) list \<Rightarrow> stream list" where
  "of_kind k ds = map snd (filter (\<lambda>x. fst x = k) ds)"

definition returned_streams ::
  "(nat \<times> via \<times> stream option \<times> error option) list \<Rightarrow> stream list" where
  "returned_streams rs =
     concat (map (\<lambda>r. case fst (snd (snd r)) of None \<Rightarrow> [] | Some st \<Rightarrow> [st]) rs)"

text \<open>
  The streams of kind \<open>k\<close> that arrived are, in this order: those delivered, the
  one the loop is sending, those the session still queues. The streams \<open>AcceptStream\<close>
  returned are those delivered.
\<close>

definition inv_streams :: "kind \<Rightarrow> conn \<Rightarrow> bool" where
  "inv_streams k s =
     (map (stream_of k (self s)) (arrived s k) =
            of_kind k (delivered s) @ in_hand (loop_pc s k)
              @ map (stream_of k (self s)) (sess_queue s k)
    \<and> returned_streams (returns s) = map snd (delivered s))"

definition inv_all :: "conn \<Rightarrow> bool" where
  "inv_all s =
     (inv_eg s \<and> inv_main s \<and> inv_start s \<and> inv_watch s \<and> (\<forall>i. inv_seen i s)
      \<and> (\<forall>r. inv_rets r s) \<and> (\<forall>j. inv_close j s) \<and> (\<forall>k. inv_streams k s))"

text \<open>
  The kind of an incoming Stream, read off its send side.
\<close>

definition stream_kind :: "stream \<Rightarrow> kind" where
  "stream_kind st = (if st_send st = None then Uni else Bidi)"

subsection \<open>Concrete interleavings\<close>




definition closed_by_caller :: "event list" where
  "closed_by_caller = [MainStarts, CallClose 0, CloserOnce 0]"

definition uni_fails :: "event list" where
  "uni_fails = [MainStarts, LoopAccepts Uni (Fails (SessionError ''reset''))]"

definition both_unwind :: "event list" where
  "both_unwind = uni_fails @ [LoopErrOnce Uni, LoopAccepts Bidi Cancelled, LoopErrOnce Bidi,
     MainWaitReturns, MainCheckErr, MainAssign, MainUnlock, MainCancel, MainCloseStreams]"

definition three_streams :: "event list" where
  "three_streams = [MainStarts, PeerOpens Uni 5, PeerOpens Bidi 7, PeerOpens Bidi 8,
     LoopAccepts Bidi Arrives, LoopAccepts Uni Arrives,
     CallAcceptStream 0 None, Handoff Uni 0, CallAcceptStream 0 None, Handoff Bidi 0,
     LoopAccepts Bidi Arrives]"

definition cancelled_while_stream_waits :: "event list" where
  "cancelled_while_stream_waits = [MainStarts, PeerOpens Bidi 7, CallAcceptStream 0 None,
     CtxDone 0 ContextCanceled, LoopAccepts Bidi Arrives]"

definition one_of_each :: "event list" where
  "one_of_each = [MainStarts, PeerOpens Uni 5, PeerOpens Bidi 7,
     LoopAccepts Bidi Arrives, LoopAccepts Uni Arrives,
     CallAcceptStream 0 None, Handoff Uni 0, CallAcceptStream 1 None, Handoff Bidi 1]"

section \<open>The Dialer\<close>

subsection \<open>Memory: slices, TLS configurations, dialers\<close>

text \<open>
  A Go slice is a view of a backing array: the array, the offset of the view, its
  length and its capacity. The nil slice has no array. Two slices may share an array,
  which is why configuration resolution is modelled on an explicit store.
\<close>

record slice =
  sl_arr :: "addr option"
  sl_off :: nat
  sl_len :: nat
  sl_cap :: nat

definition nil_slice :: slice where
  "nil_slice = \<lparr>sl_arr = None, sl_off = 0, sl_len = 0, sl_cap = 0\<rparr>"

text \<open>
  \<open>tls.Config\<close> (package \<open>crypto/tls\<close>): of its fields only \<open>NextProtos\<close> is
  touched here; \<open>ServerName\<close> and \<open>InsecureSkipVerify\<close> stand for the others, which
  \<open>Clone\<close> copies the same way.
\<close>

record tls_config =
  NextProtos :: slice
  ServerName :: string
  InsecureSkipVerify :: bool

definition zero_tls_config :: tls_config where
  "zero_tls_config = \<lparr>NextProtos = nil_slice, ServerName = [], InsecureSkipVerify = False\<rparr>"

record dialer =
  TLSConfig :: "addr option"
  QuicConfig :: "addr option"
  Protocol :: string

definition zero_dialer :: dialer where
  "zero_dialer = \<lparr>TLSConfig = None, QuicConfig = None, Protocol = []\<rparr>"

text \<open>What the package hands to quic-go when it dials: the only network activity it starts.\<close>

datatype dial_request =
    DialAddrContext ctx string addr "addr option"
  | DialContext ctx nat string string addr "addr option"

record heap =
  dialers :: "addr \<Rightarrow> dialer"
  configs :: "addr \<Rightarrow> tls_config"
  arrays :: "addr \<Rightarrow> string list"
  next_addr :: addr
  network :: "dial_request list"

definition slice_elems :: "heap \<Rightarrow> slice \<Rightarrow> string list" where
  "slice_elems h s =
     (case sl_arr s of None \<Rightarrow> []
      | Some a \<Rightarrow> take (sl_len s) (drop (sl_off s) (arrays h a)))"

text \<open>The composite literal \<open>[]string{x}\<close>: a fresh array of one element.\<close>

definition slice_lit1 :: "string \<Rightarrow> heap \<Rightarrow> slice \<times> heap" where
  "slice_lit1 x h =
     (\<lparr>sl_arr = Some (next_addr h), sl_off = 0, sl_len = 1, sl_cap = 1\<rparr>,
      h\<lparr>arrays := (arrays h)(next_addr h := [x]), next_addr := Suc (next_addr h)\<rparr>)"

text \<open>
  Writing \<open>xs\<close> into an array from index \<open>i\<close> on (the array is long enough wherever
  \<open>append\<close> does this).
\<close>

definition write_at :: "nat \<Rightarrow> string list \<Rightarrow> string list \<Rightarrow> string list" where
  "write_at i xs arr = take i arr @ xs @ drop (i + length xs) arr"

text \<open>
  The built-in \<open>append(s, xs...)\<close>: within capacity it writes behind the slice into
  the same array; beyond capacity it copies into a fresh array. The capacity of the
  fresh array is the runtime's choice (at least the new length); the doubling rule is
  written here without the allocator's rounding, which nothing below depends on.
\<close>

definition append_slice :: "slice \<Rightarrow> string list \<Rightarrow> heap \<Rightarrow> slice \<times> heap" where
  "append_slice s xs h =
     (let n = sl_len s + length xs in
      if n \<le> sl_cap s then
        (case sl_arr s of
           None \<Rightarrow> (s, h)
         | Some a \<Rightarrow>
             (s\<lparr>sl_len := n\<rparr>,
              h\<lparr>arrays := (arrays h)(a := write_at (sl_off s + sl_len s) xs (arrays h a))\<rparr>))
      else
        (let c = max n (2 * sl_cap s) in
         (\<lparr>sl_arr = Some (next_addr h), sl_off = 0, sl_len = n, sl_cap = c\<rparr>,
          h\<lparr>arrays := (arrays h)(next_addr h := slice_elems h s @ xs @ replicate (c - n) []),
            next_addr := Suc (next_addr h)\<rparr>)))"

text \<open>
  \<open>(*tls.Config).Clone\<close>: nil for a nil receiver, otherwise a fresh struct with the
  fields copied, so the clone's \<open>NextProtos\<close> shares its array with the original's.
\<close>

definition Clone :: "addr option \<Rightarrow> heap \<Rightarrow> addr option \<times> heap" where
  "Clone c h =
     (case c of None \<Rightarrow> (None, h)
      | Some a \<Rightarrow>
          (Some (next_addr h),
           h\<lparr>configs := (configs h)(next_addr h := configs h a),
             next_addr := Suc (next_addr h)\<rparr>))"

text \<open>\<open>new(tls.Config)\<close> and \<open>new(Dialer)\<close>: a fresh zero value.\<close>

definition new_tls_config :: "heap \<Rightarrow> addr \<times> heap" where
  "new_tls_config h =
     (next_addr h,
      h\<lparr>configs := (configs h)(next_addr h := zero_tls_config),
        next_addr := Suc (next_addr h)\<rparr>)"

definition new_Dialer :: "heap \<Rightarrow> addr \<times> heap" where
  "new_Dialer h =
     (next_addr h,
      h\<lparr>dialers := (dialers h)(next_addr h := zero_dialer),
        next_addr := Suc (next_addr h)\<rparr>)"

subsection \<open>Configuration resolution and the dial operations\<close>

text \<open>A call either panics with a message or returns.\<close>

datatype 'a outcome = Panicked string | Returned 'a

text \<open>
  \<open>(*Dialer).tlsConfig\<close>, statement by statement. The receiver \<open>d\<close> is the address
  of the Dialer.
\<close>

definition tlsConfig :: "addr \<Rightarrow> heap \<Rightarrow> addr outcome \<times> heap" where
  "tlsConfig d h =
     (let (cl, h1) = Clone (TLSConfig (dialers h d)) h;
          (conf, h2) = (case cl of None \<Rightarrow> new_tls_config h1 | Some a \<Rightarrow> (a, h1));
          h5 = (if Protocol (dialers h2 d) \<noteq> [] then
                  (let (lit, h3) = slice_lit1 (Protocol (dialers h2 d)) h2;
                       (np, h4) = append_slice lit (slice_elems h3 (NextProtos (configs h3 conf))) h3
                   in h4\<lparr>configs := (configs h4)(conf := (configs h4 conf)\<lparr>NextProtos := np\<rparr>)\<rparr>)
                else h2)
      in if sl_len (NextProtos (configs h5 conf)) = 0
         then (Panicked ''no protocol specified'', h5)
         else (Returned conf, h5))"

text \<open>
  The two quic-go entry points are outside the package. Calling one is recorded in
  \<open>network\<close>; what it answers is the environment's choice \<open>env\<close>.
\<close>

type_synonym dial_env = "dial_request \<Rightarrow> error + nat"

definition quic_dial :: "dial_env \<Rightarrow> dial_request \<Rightarrow> heap \<Rightarrow> (error + nat) \<times> heap" where
  "quic_dial env req h = (env req, h\<lparr>network := network h @ [req]\<rparr>)"

text \<open>
  \<open>(*Dialer).DialContext\<close> and \<open>(*Dialer).ClientContext\<close>: the arguments are
  evaluated before the call, so \<open>d.tlsConfig()\<close> runs, and may panic, before quic-go is
  entered. On success \<open>newConn\<close> allocates the connection.
\<close>

definition Dialer_DialContext ::
  "dial_env \<Rightarrow> addr \<Rightarrow> ctx \<Rightarrow> string \<Rightarrow> heap \<Rightarrow> (error + conn) outcome \<times> heap" where
  "Dialer_DialContext env d c address h =
     (case tlsConfig d h of
        (Panicked m, h1) \<Rightarrow> (Panicked m, h1)
      | (Returned conf, h1) \<Rightarrow>
          (case quic_dial env (DialAddrContext c address conf (QuicConfig (dialers h1 d))) h1 of
             (Inl err, h2) \<Rightarrow> (Returned (Inl err), h2)
           | (Inr sess, h2) \<Rightarrow>
               (Returned (Inr (newConn (next_addr h2) sess)),
                h2\<lparr>next_addr := Suc (next_addr h2)\<rparr>)))"

definition Dialer_ClientContext ::
  "dial_env \<Rightarrow> addr \<Rightarrow> ctx \<Rightarrow> nat \<Rightarrow> string \<Rightarrow> string \<Rightarrow> heap \<Rightarrow> (error + conn) outcome \<times> heap" where
  "Dialer_ClientContext env d c pconn raddr host h =
     (case tlsConfig d h of
        (Panicked m, h1) \<Rightarrow> (Panicked m, h1)
      | (Returned conf, h1) \<Rightarrow>
          (case quic_dial env (DialContext c pconn raddr host conf (QuicConfig (dialers h1 d))) h1 of
             (Inl err, h2) \<Rightarrow> (Returned (Inl err), h2)
           | (Inr sess, h2) \<Rightarrow>
               (Returned (Inr (newConn (next_addr h2) sess)),
                h2\<lparr>next_addr := Suc (next_addr h2)\<rparr>)))"

definition Dialer_Dial ::
  "dial_env \<Rightarrow> addr \<Rightarrow> string \<Rightarrow> heap \<Rightarrow> (error + conn) outcome \<times> heap" where
  "Dialer_Dial env d address h = Dialer_DialContext env d Background address h"

definition Dialer_Client ::
  "dial_env \<Rightarrow> addr \<Rightarrow> nat \<Rightarrow> string \<Rightarrow> string \<Rightarrow> heap \<Rightarrow> (error + conn) outcome \<times> heap" where
  "Dialer_Client env d pconn raddr host h = Dialer_ClientContext env d Background pconn raddr host h"

text \<open>The package-level \<open>Dial\<close> and \<open>Client\<close>: \<open>new(Dialer)\<close>, then the method.\<close>

definition Dial :: "dial_env \<Rightarrow> string \<Rightarrow> heap \<Rightarrow> (error + conn) outcome \<times> heap" where
  "Dial env address h = (let (d, h1) = new_Dialer h in Dialer_Dial env d address h1)"

definition Client ::
  "dial_env \<Rightarrow> nat \<Rightarrow> string \<Rightarrow> string \<Rightarrow> heap \<Rightarrow> (error + conn) outcome \<times> heap" where
  "Client env pconn raddr host h =
     (let (d, h1) = new_Dialer h in Dialer_Client env d pconn raddr host h1)"

subsection \<open>Well-formed inputs and what the claims speak of\<close>

text \<open>
  Go's memory safety gives every slice a view inside its array, and every pointer a
  target that was allocated before: these are the heaps a caller can hand over.
\<close>

definition valid_slice :: "heap \<Rightarrow> slice \<Rightarrow> bool" where
  "valid_slice h s =
     (case sl_arr s of None \<Rightarrow> sl_len s = 0 \<and> sl_cap s = 0
      | Some a \<Rightarrow> a < next_addr h \<and> sl_len s \<le> sl_cap s
          \<and> sl_off s + sl_cap s \<le> length (arrays h a))"

definition wf_dialer :: "heap \<Rightarrow> addr \<Rightarrow> bool" where
  "wf_dialer h d =
     (d < next_addr h \<and>
      (case TLSConfig (dialers h d) of None \<Rightarrow> True
       | Some c \<Rightarrow> c < next_addr h \<and> valid_slice h (NextProtos (configs h c))))"

text \<open>The negotiation list the caller supplied: that of \<open>d.TLSConfig\<close>, empty for nil.\<close>

definition caller_protos :: "heap \<Rightarrow> addr \<Rightarrow> string list" where
  "caller_protos h d =
     (case TLSConfig (dialers h d) of None \<Rightarrow> []
      | Some c \<Rightarrow> slice_elems h (NextProtos (configs h c)))"

text \<open>The spec's combination of the caller's list with the protocol identifier.\<close>

definition combined_protos :: "heap \<Rightarrow> addr \<Rightarrow> string list" where
  "combined_protos h d =
     (if Protocol (dialers h d) \<noteq> [] then Protocol (dialers h d) # caller_protos h d
      else caller_protos h d)"

text \<open>The negotiation list of the configuration \<open>tlsConfig\<close> returned, if it returned.\<close>

definition resolved_protos :: "addr outcome \<times> heap \<Rightarrow> string list option" where
  "resolved_protos r =
     (case fst r of Panicked m \<Rightarrow> None
      | Returned conf \<Rightarrow> Some (slice_elems (snd r) (NextProtos (configs (snd r) conf))))"

text \<open>Everything allocated in \<open>h\<close> is the same in \<open>h'\<close>.\<close>

definition unchanged_below :: "heap \<Rightarrow> heap \<Rightarrow> bool" where
  "unchanged_below h h' =
     (dialers h' = dialers h \<and> next_addr h \<le> next_addr h' \<and>
      (\<forall>a<next_addr h. configs h' a = configs h a \<and> arrays h' a = arrays h a))"

definition caller_state_kept :: "heap \<Rightarrow> addr \<Rightarrow> heap \<Rightarrow> bool" where
  "caller_state_kept h d h' =
     (unchanged_below h h' \<and> TLSConfig (dialers h' d) = TLSConfig (dialers h d)
      \<and> caller_protos h' d = caller_protos h d)"

text \<open>Concrete heaps: a zero Dialer; one with only a protocol; one with both.\<close>

definition empty_heap :: heap where
  "empty_heap = \<lparr>dialers = (\<lambda>_. zero_dialer), configs = (\<lambda>_. zero_tls_config),
     arrays = (\<lambda>_. []), next_addr = 0, network = []\<rparr>"

definition heap_zero :: heap where
  "heap_zero = empty_heap\<lparr>next_addr := 1\<rparr>"

definition heap_h3 :: heap where
  "heap_h3 = empty_heap\<lparr>
     dialers := (\<lambda>_. zero_dialer)(0 := zero_dialer\<lparr>Protocol := ''h3-test''\<rparr>),
     next_addr := 1\<rparr>"

definition heap_both :: heap where
  "heap_both = empty_heap\<lparr>
     dialers := (\<lambda>_. zero_dialer)
       (0 := \<lparr>TLSConfig = Some 1, QuicConfig = None, Protocol = ''h3-test''\<rparr>),
     configs := (\<lambda>_. zero_tls_config)
       (1 := zero_tls_config\<lparr>NextProtos := \<lparr>sl_arr = Some 2, sl_off = 1, sl_len = 2, sl_cap = 3\<rparr>\<rparr>),
     arrays := (\<lambda>_. [])(2 := [''x'', ''h3'', ''hq-29'', ''y'']),
     next_addr := 3\<rparr>"

section \<open>Properties of the connection\<close>

subsection \<open>Every step follows a rule\<close>

lemmas step_defs = session_accept_def loop_body_def bidi_loop_body_def uni_loop_body_def
  eg_record_def enter_CloseWithError_def Let_def

lemma step_moves: "step e s = s \<or> moves s (step e s)"
proof (cases e)
  case (PeerOpens k h) then show ?thesis by (simp add: moves.PeerOpens)
next
  case MainStarts then show ?thesis by (simp add: moves.MainStarts)
next
  case (LoopAccepts k out)
  show ?thesis
  proof (cases out)
    case Arrives
    then show ?thesis using LoopAccepts moves.AcceptArrives[of s k]
      by (cases k) (auto simp: step_defs stream_of_def split: list.splits)
  next
    case Cancelled
    then show ?thesis using LoopAccepts moves.AcceptCancelled[of s k]
      by (cases k) (auto simp: step_defs)
  next
    case (Fails err)
    then show ?thesis using LoopAccepts moves.AcceptFails[of s k err]
      by (cases k) (auto simp: step_defs)
  qed
next
  case (Handoff k i) then show ?thesis
    by (auto split: lpc.splits cpc.splits intro: moves.Handoff)
next
  case (LoopErrOnce k) then show ?thesis
    using moves.ErrOnceFirst[of s k] moves.ErrOnceLater[of s k]
    by (auto simp: eg_record_def Let_def split: lpc.splits)
next
  case WatchDone then show ?thesis by (simp add: moves.WatchDone)
next
  case WatchCancel then show ?thesis by (simp add: moves.WatchCancel)
next
  case MainWaitReturns then show ?thesis by (simp add: moves.MainWaitReturns)
next
  case MainCheckErr then show ?thesis
    by (auto split: mpc.splits option.splits intro: moves.MainNoErr moves.MainLock)
next
  case MainAssign then show ?thesis by (auto split: mpc.splits intro: moves.MainAssign)
next
  case MainUnlock then show ?thesis by (simp add: moves.MainUnlock)
next
  case MainCancel then show ?thesis by (simp add: moves.MainCancel)
next
  case MainCloseStreams then show ?thesis by (simp add: moves.MainCloseStreams)
next
  case (CallAcceptStream i cx) then show ?thesis by (simp add: moves.CallAcceptStream)
next
  case (CtxDone i err) then show ?thesis by (simp add: moves.CtxDone)
next
  case (SelectCtxDone i)
  show ?thesis
  proof (cases "callers s i")
    case (CSelect cx)
    then show ?thesis using SelectCtxDone by (cases cx) (simp_all add: moves.SelectCtxDone)
  qed (simp_all add: SelectCtxDone)
next
  case (SelectClosed i) then show ?thesis
    by (auto split: cpc.splits intro: moves.SelectClosed)
next
  case (CallerRLock i) then show ?thesis by (simp add: moves.CallerRLock)
next
  case (CallerRead i) then show ?thesis by (simp add: moves.CallerRead)
next
  case (CallerRUnlock i) then show ?thesis
    using moves.CallerRUnlock[of s i] by (auto split: cpc.splits)
next
  case (CallCloseWithError j code desc) then show ?thesis
    by (simp add: enter_CloseWithError_def moves.CallClose)
next
  case (CallClose j) then show ?thesis
    by (simp add: enter_CloseWithError_def moves.CallClose)
next
  case (CloserOnce j) then show ?thesis
    using moves.CloserOnceFirst[of s j] moves.CloserOnceLater[of s j]
    by (auto simp: Let_def split: kpc.splits)
next
  case (CloserSession j r) then show ?thesis
    by (auto split: kpc.splits intro: moves.CloserSession)
qed

lemma run_Nil [simp]: "run [] s = s"
  by (simp add: run_def)

lemma run_Cons [simp]: "run (e # evs) s = run evs (step e s)"
  by (simp add: run_def)

lemma run_append: "run (xs @ ys) s = run ys (run xs s)"
  by (simp add: run_def)

lemma run_invariant:
  assumes "P s0" and "\<And>s s'. P s \<Longrightarrow> moves s s' \<Longrightarrow> P s'"
  shows "P (run evs s0)"
  using assms(1)
proof (induction evs arbitrary: s0)
  case Nil
  then show ?case by simp
next
  case (Cons e evs)
  have "P (step e s0)"
    using step_moves[of e s0] Cons.prems assms(2) by auto
  then show ?case using Cons.IH by simp
qed

subsection \<open>The invariants hold in every reachable state\<close>

lemma inv_eg_init: "inv_eg (newConn a sess)"
  by (simp add: inv_eg_def newConn_def)

lemma inv_eg_moves: "moves s s' \<Longrightarrow> inv_eg s \<Longrightarrow> inv_eg s'"
  by (induction rule: moves.induct) (auto simp: inv_eg_def split: list.splits)

lemma inv_main_init: "inv_main (newConn a sess)"
  by (simp add: inv_main_def newConn_def)

lemma inv_main_moves: "moves s s' \<Longrightarrow> inv_eg s \<Longrightarrow> inv_main s \<Longrightarrow> inv_main s'"
  by (induction rule: moves.induct) (auto simp: inv_main_def inv_eg_def split: list.splits)

lemma inv_start_init: "inv_start (newConn a sess)"
  by (simp add: inv_start_def newConn_def)

lemma inv_start_moves: "moves s s' \<Longrightarrow> inv_start s \<Longrightarrow> inv_start s'"
  by (induction rule: moves.induct) (auto simp: inv_start_def)

lemma inv_watch_init: "inv_watch (newConn a sess)"
  by (simp add: inv_watch_def newConn_def)

lemma inv_watch_moves: "moves s s' \<Longrightarrow> inv_watch s \<Longrightarrow> inv_watch s'"
  by (induction rule: moves.induct) (auto simp: inv_watch_def)

lemma inv_seen_init: "inv_seen i (newConn a sess)"
  by (simp add: inv_seen_def newConn_def)

lemma inv_seen_moves: "moves s s' \<Longrightarrow> inv_main s \<Longrightarrow> inv_seen i s \<Longrightarrow> inv_seen i s'"
proof (induction rule: moves.induct)
  case Handoff then show ?case by (auto simp: inv_seen_def)
next
  case MainAssign then show ?case by (auto simp: inv_seen_def inv_main_def)
next
  case MainCloseStreams then show ?case by (auto simp: inv_seen_def)
next
  case CallAcceptStream then show ?case by (auto simp: inv_seen_def)
next
  case CtxDone then show ?case by (auto simp: inv_seen_def)
next
  case SelectCtxDone then show ?case by (auto simp: inv_seen_def)
next
  case SelectClosed then show ?case by (auto simp: inv_seen_def)
next
  case CallerRLock then show ?case by (auto simp: inv_seen_def)
next
  case CallerRead then show ?case by (auto simp: inv_seen_def)
next
  case CallerRUnlock then show ?case by (auto simp: inv_seen_def)
qed (simp_all add: inv_seen_def)

lemma inv_rets_init: "inv_rets r (newConn a sess)"
  by (simp add: inv_rets_def newConn_def)

lemma inv_rets_moves:
  "moves s s' \<Longrightarrow> inv_main s \<Longrightarrow> (\<And>i. inv_seen i s) \<Longrightarrow> inv_rets r s \<Longrightarrow> inv_rets r s'"
proof (induction rule: moves.induct)
  case Handoff then show ?case by (auto simp: inv_rets_def closed_return_def)
next
  case SelectCtxDone then show ?case by (auto simp: inv_rets_def closed_return_def)
next
  case (CallerRUnlock s i err)
  then have "inv_seen i s" by blast
  with CallerRUnlock(1,4) show ?case by (auto simp: inv_rets_def closed_return_def inv_seen_def)
next
  case MainAssign then show ?case by (auto simp: inv_rets_def closed_return_def inv_main_def)
next
  case MainCloseStreams then show ?case by (auto simp: inv_rets_def closed_return_def inv_main_def)
qed (simp_all add: inv_rets_def closed_return_def)

lemma inv_close_init: "inv_close j (newConn a sess)"
  by (simp add: inv_close_def calls_by_def closes_by_def newConn_def)

lemma inv_close_moves: "moves s s' \<Longrightarrow> inv_close j s \<Longrightarrow> inv_close j s'"
proof (induction rule: moves.induct)
  case CallClose then show ?case by (auto simp: inv_close_def calls_by_def closes_by_def)
next
  case CloserOnceFirst then show ?case by (auto simp: inv_close_def calls_by_def closes_by_def)
next
  case CloserOnceLater then show ?case by (auto simp: inv_close_def calls_by_def closes_by_def)
next
  case CloserSession then show ?case
    by (auto simp: inv_close_def calls_by_def closes_by_def close_args_def close_result_def)
qed (simp_all add: inv_close_def calls_by_def closes_by_def)

lemma inv_streams_init: "inv_streams k (newConn a sess)"
  by (simp add: inv_streams_def newConn_def of_kind_def returned_streams_def)

lemma inv_streams_moves: "moves s s' \<Longrightarrow> inv_start s \<Longrightarrow> inv_streams k s \<Longrightarrow> inv_streams k s'"
proof (induction rule: moves.induct)
  case PeerOpens then show ?case by (auto simp: inv_streams_def)
next
  case MainStarts then show ?case by (auto simp: inv_streams_def inv_start_def)
next
  case AcceptArrives then show ?case by (auto simp: inv_streams_def)
next
  case AcceptCancelled then show ?case by (auto simp: inv_streams_def)
next
  case AcceptFails then show ?case by (auto simp: inv_streams_def)
next
  case Handoff then show ?case by (auto simp: inv_streams_def of_kind_def returned_streams_def)
next
  case ErrOnceFirst then show ?case by (auto simp: inv_streams_def)
next
  case ErrOnceLater then show ?case by (auto simp: inv_streams_def)
next
  case SelectCtxDone then show ?case by (auto simp: inv_streams_def returned_streams_def)
next
  case CallerRUnlock then show ?case by (auto simp: inv_streams_def returned_streams_def)
qed (simp_all add: inv_streams_def)

lemma inv_all_moves:
  assumes "inv_all s" "moves s s'"
  shows "inv_all s'"
proof -
  have a: "inv_eg s" "inv_main s" "inv_start s" "inv_watch s" "\<And>i. inv_seen i s"
    "\<And>r. inv_rets r s" "\<And>j. inv_close j s" "\<And>k. inv_streams k s"
    using assms(1) unfolding inv_all_def by blast+
  show ?thesis
    unfolding inv_all_def
  proof (intro conjI allI)
    show "inv_eg s'" using a assms(2) inv_eg_moves by blast
    show "inv_main s'" using a assms(2) inv_main_moves by blast
    show "inv_start s'" using a assms(2) inv_start_moves by blast
    show "inv_watch s'" using a assms(2) inv_watch_moves by blast
    show "inv_seen i s'" for i using a assms(2) inv_seen_moves by blast
    show "inv_rets r s'" for r by (rule inv_rets_moves[OF assms(2)]) (rule a)+
    show "inv_close j s'" for j using a assms(2) inv_close_moves by blast
    show "inv_streams k s'" for k using a assms(2) inv_streams_moves by blast
  qed
qed

lemma inv_all_run: "inv_all (run evs (newConn a sess))"
proof (rule run_invariant)
  show "inv_all (newConn a sess)"
    by (simp add: inv_all_def inv_eg_init inv_main_init inv_start_init inv_watch_init
          inv_seen_init inv_rets_init inv_close_init inv_streams_init)
qed (rule inv_all_moves)

lemma inv_parts:
  assumes "inv_all s"
  shows "inv_eg s" "inv_main s" "inv_start s" "inv_watch s" "\<And>i. inv_seen i s"
    "\<And>r. inv_rets r s" "\<And>j. inv_close j s" "\<And>k. inv_streams k s"
  using assms unfolding inv_all_def by blast+

lemma self_moves: "moves s s' \<Longrightarrow> self s' = self s"
  by (induction rule: moves.induct) simp_all

lemma self_run: "self (run evs (newConn a sess)) = a"
proof (rule run_invariant)
  show "self (newConn a sess) = a" by (simp add: newConn_def)
qed (simp add: self_moves)

lemma not_closed_while_sending:
  assumes "inv_main s" "loop_pc s k = LSend st"
  shows "\<not> streams_closed s"
  using assms by (cases k) (auto simp: inv_main_def)

lemma watcher_cancels:
  assumes "inv_start s" "inv_watch s" "done_closed s"
  shows "ctx_cancelled (run [MainStarts, WatchDone, WatchCancel] s)"
  using assms
  by (cases "main_pc s = MStart"; cases "watch_pc s") (auto simp: inv_start_def inv_watch_def)

subsection \<open>Streams and their kinds\<close>

lemma stream_of_inj: "stream_of k c h = stream_of k c h' \<Longrightarrow> h = h'"
  by (cases k) (simp_all add: stream_of_def newStream_def)

lemma stream_kind_stream_of: "stream_kind (stream_of k c h) = k"
  by (cases k) (simp_all add: stream_of_def newStream_def stream_kind_def)

lemma of_kind_Cons:
  "of_kind k (x # ds) = (if fst x = k then snd x # of_kind k ds else of_kind k ds)"
  by (simp add: of_kind_def)

lemma mem_of_kind: "x \<in> set ds \<Longrightarrow> snd x \<in> set (of_kind (fst x) ds)"
  by (force simp: of_kind_def)

lemma distinct_by_kind:
  assumes "\<forall>k. distinct (of_kind k ds)" "\<forall>x\<in>set ds. stream_kind (snd x) = fst x"
  shows "distinct (map snd ds)"
  using assms
proof (induction ds)
  case Nil
  then show ?case by simp
next
  case (Cons x ds)
  have d: "distinct (of_kind (fst x) (x # ds))" using Cons.prems(1) by blast
  have "snd x \<notin> snd ` set ds"
  proof
    assume "snd x \<in> snd ` set ds"
    then obtain y where y: "y \<in> set ds" "snd y = snd x" by auto
    then have "fst y = fst x" using Cons.prems(2) by (metis list.set_intros(1,2))
    then have "snd x \<in> set (of_kind (fst x) ds)" using mem_of_kind[OF y(1)] y(2) by simp
    then show False using d by (simp add: of_kind_Cons)
  qed
  moreover have "\<forall>k. distinct (of_kind k ds)"
    using Cons.prems(1) by (metis distinct.simps(2) of_kind_Cons)
  ultimately show ?case using Cons by simp
qed

lemma delivered_from_arrived:
  assumes "inv_streams k s" "(k, st) \<in> set (delivered s) \<or> loop_pc s k = LSend st"
  shows "\<exists>h\<in>set (arrived s k). st = stream_of k (self s) h"
proof -
  have eq: "map (stream_of k (self s)) (arrived s k) =
      of_kind k (delivered s) @ in_hand (loop_pc s k)
        @ map (stream_of k (self s)) (sess_queue s k)"
    using assms(1) by (simp add: inv_streams_def)
  have "st \<in> set (of_kind k (delivered s) @ in_hand (loop_pc s k)
        @ map (stream_of k (self s)) (sess_queue s k))"
    using assms(2) mem_of_kind[of "(k, st)" "delivered s"] by auto
  then have "st \<in> set (map (stream_of k (self s)) (arrived s k))"
    unfolding eq .
  then show ?thesis by auto
qed

lemma of_kind_distinct:
  assumes "inv_streams k s" "distinct (arrived s k)"
  shows "distinct (of_kind k (delivered s))"
proof -
  have eq: "map (stream_of k (self s)) (arrived s k) =
      of_kind k (delivered s) @ in_hand (loop_pc s k)
        @ map (stream_of k (self s)) (sess_queue s k)"
    using assms(1) by (simp add: inv_streams_def)
  have "inj_on (stream_of k (self s)) (set (arrived s k))"
    using stream_of_inj by (auto simp: inj_on_def)
  then have "distinct (map (stream_of k (self s)) (arrived s k))"
    using assms(2) by (simp add: distinct_map)
  then have "distinct (of_kind k (delivered s) @ in_hand (loop_pc s k)
        @ map (stream_of k (self s)) (sess_queue s k))"
    unfolding eq .
  then show ?thesis by simp
qed

lemmas run_simps = newConn_def session_accept_def loop_body_def bidi_loop_body_def
  uni_loop_body_def eg_record_def enter_CloseWithError_def loops_ctx_done_def Let_def

subsection \<open>Closing\<close>




subsection \<open>The terminal error\<close>



subsection \<open>Joint shutdown of the loops\<close>

text \<open>
  C3. When a loop has returned an error, its next step (the errgroup wrapper) makes the
  loops' context done, and the context is done whenever a loop is done. When \<open>c.done\<close>
  is closed, the goroutine waiting on it makes the context done. A loop waiting in its
  accept with the context done returns \<open>context.Canceled\<close>. \<open>c.streams\<close> is closed
  only when both loops are done. The errgroup keeps the error of the first loop that
  reached it, and that is \<open>c.streamErr\<close> once the channel is closed.
\<close>

theorem loops_fail_closed_as_a_unit:
  fixes evs a sess
  defines "s \<equiv> run evs (newConn a sess)"
  shows "(\<forall>k e. loop_pc s k = LReturn e \<longrightarrow> loops_ctx_done (step (LoopErrOnce k) s))
       \<and> (\<forall>k. loop_pc s k = LDone \<longrightarrow> loops_ctx_done s)
       \<and> (done_closed s \<longrightarrow> loops_ctx_done (run [MainStarts, WatchDone, WatchCancel] s))
       \<and> (\<forall>k. loops_ctx_done s \<and> loop_pc s k = LAccept \<longrightarrow>
             loop_pc (step (LoopAccepts k Cancelled) s) k = LReturn ContextCanceled)
       \<and> (streams_closed s \<longrightarrow> loop_pc s Bidi = LDone \<and> loop_pc s Uni = LDone)
       \<and> eg_err s = (case errs_observed s of [] \<Rightarrow> None | x # xs \<Rightarrow> Some (snd x))
       \<and> (streams_closed s \<longrightarrow>
            errs_observed s \<noteq> [] \<and> streamErr s = Some (snd (hd (errs_observed s))))"
proof -
  have "inv_all s" unfolding s_def by (rule inv_all_run)
  then have e: "inv_eg s" and m: "inv_main s" and st: "inv_start s" and w: "inv_watch s"
    by (rule inv_parts)+
  have 1: "loops_ctx_done (step (LoopErrOnce k) s)" if "loop_pc s k = LReturn err" for k err
    using that e by (auto simp: eg_record_def loops_ctx_done_def inv_eg_def Let_def)
  have 2: "loops_ctx_done s" if "loop_pc s k = LDone" for k
    using that e by (auto simp: loops_ctx_done_def inv_eg_def)
  have 3: "loops_ctx_done (run [MainStarts, WatchDone, WatchCancel] s)" if "done_closed s"
    using watcher_cancels[OF st w that] by (simp add: loops_ctx_done_def)
  have 4: "loop_pc (step (LoopAccepts k Cancelled) s) k = LReturn ContextCanceled"
    if "loops_ctx_done s" "loop_pc s k = LAccept" for k
    using that by (cases k) (simp_all add: session_accept_def loop_body_def bidi_loop_body_def uni_loop_body_def)
  have 5: "loop_pc s Bidi = LDone \<and> loop_pc s Uni = LDone" if "streams_closed s"
    using that m by (auto simp: inv_main_def)
  have 6: "eg_err s = (case errs_observed s of [] \<Rightarrow> None | x # xs \<Rightarrow> Some (snd x))"
    using e by (simp add: inv_eg_def)
  have 7: "errs_observed s \<noteq> [] \<and> streamErr s = Some (snd (hd (errs_observed s)))"
    if "streams_closed s"
    using that m e by (cases "errs_observed s") (auto simp: inv_main_def inv_eg_def)
  show ?thesis using 1 2 3 4 5 6 7 by blast
qed

theorem loops_fail_closed_as_a_unit_witness:
  "done_closed (run closed_by_caller (newConn 0 0))
   \<and> \<not> loops_ctx_done (run closed_by_caller (newConn 0 0))
   \<and> loops_ctx_done (run (closed_by_caller @ [MainStarts, WatchDone, WatchCancel]) (newConn 0 0))
   \<and> loop_pc (run (closed_by_caller @ [MainStarts, WatchDone, WatchCancel, LoopAccepts Bidi Cancelled])
         (newConn 0 0)) Bidi = LReturn ContextCanceled
   \<and> loop_pc (run uni_fails (newConn 0 0)) Uni = LReturn (SessionError ''reset'')
   \<and> \<not> loops_ctx_done (run uni_fails (newConn 0 0))
   \<and> loops_ctx_done (run (uni_fails @ [LoopErrOnce Uni]) (newConn 0 0))
   \<and> streams_closed (run both_unwind (newConn 0 0))
   \<and> loop_pc (run both_unwind (newConn 0 0)) Bidi = LDone
   \<and> loop_pc (run both_unwind (newConn 0 0)) Uni = LDone
   \<and> errs_observed (run both_unwind (newConn 0 0)) =
        [(Uni, SessionError ''reset''), (Bidi, ContextCanceled)]
   \<and> streamErr (run both_unwind (newConn 0 0)) = Some (SessionError ''reset'')"
  using loops_fail_closed_as_a_unit[where evs=closed_by_caller and a=0 and sess=0]
    loops_fail_closed_as_a_unit[where evs=uni_fails and a=0 and sess=0]
    loops_fail_closed_as_a_unit[where evs=both_unwind and a=0 and sess=0]
  by (simp add: closed_by_caller_def uni_fails_def both_unwind_def run_simps run_append)

subsection \<open>Delivery\<close>

text \<open>
  C4. In every reachable state, for each kind, the streams that arrived are, in arrival
  order, the streams delivered, then the one the loop holds in its send, then those the
  session still queues: none is lost, none is delivered twice, none overtakes another of
  its kind. The streams \<open>AcceptStream\<close> calls returned are exactly the delivered ones,
  each returned by one call; when the arrived handles are distinct, so are the delivered
  streams. A stream a loop holds goes to the next caller of \<open>AcceptStream\<close>, and so
  does the oldest queued stream of a loop that waits in accept.
\<close>

theorem every_stream_delivered_once_in_order:
  fixes evs a sess
  defines "s \<equiv> run evs (newConn a sess)"
  shows "(\<forall>k. map (stream_of k a) (arrived s k) =
             of_kind k (delivered s) @ in_hand (loop_pc s k) @ map (stream_of k a) (sess_queue s k))
       \<and> returned_streams (returns s) = map snd (delivered s)
       \<and> (distinct (arrived s Bidi) \<and> distinct (arrived s Uni) \<longrightarrow> distinct (map snd (delivered s)))
       \<and> (\<forall>k st i cx. loop_pc s k = LSend st \<and> callers s i = CIdle \<longrightarrow>
             returns (run [CallAcceptStream i cx, Handoff k i] s) =
               returns s @ [(i, ViaStream, Some st, None)])
       \<and> (\<forall>k h q i cx. loop_pc s k = LAccept \<and> sess_queue s k = h # q \<and> callers s i = CIdle \<longrightarrow>
             returns (run [LoopAccepts k Arrives, CallAcceptStream i cx, Handoff k i] s) =
               returns s @ [(i, ViaStream, Some (stream_of k a h), None)])"
proof -
  have "inv_all s" unfolding s_def by (rule inv_all_run)
  then have m: "inv_main s" and st: "\<And>k. inv_streams k s" by (rule inv_parts)+
  have self: "self s = a" unfolding s_def by (rule self_run)
  have 1: "\<forall>k. map (stream_of k a) (arrived s k) =
             of_kind k (delivered s) @ in_hand (loop_pc s k) @ map (stream_of k a) (sess_queue s k)"
    using st self by (simp add: inv_streams_def)
  have 2: "returned_streams (returns s) = map snd (delivered s)"
    using st[of Bidi] by (simp add: inv_streams_def)
  have 3: "distinct (map snd (delivered s))" if "distinct (arrived s Bidi) \<and> distinct (arrived s Uni)"
  proof (rule distinct_by_kind)
    show "\<forall>k. distinct (of_kind k (delivered s))"
    proof
      fix k show "distinct (of_kind k (delivered s))"
        using that of_kind_distinct[OF st[of k]] by (cases k) simp_all
    qed
    show "\<forall>x\<in>set (delivered s). stream_kind (snd x) = fst x"
    proof
      fix x assume "x \<in> set (delivered s)"
      then have "(fst x, snd x) \<in> set (delivered s)" by simp
      then obtain h where "snd x = stream_of (fst x) (self s) h"
        using delivered_from_arrived[OF st[of "fst x"], of "snd x"] by blast
      then show "stream_kind (snd x) = fst x" by (simp add: stream_kind_stream_of)
    qed
  qed
  have 4: "returns (run [CallAcceptStream i cx, Handoff k i] s) =
               returns s @ [(i, ViaStream, Some st', None)]"
    if "loop_pc s k = LSend st'" "callers s i = CIdle" for k st' i cx
    using that not_closed_while_sending[OF m that(1)] by simp
  have 5: "returns (run [LoopAccepts k Arrives, CallAcceptStream i cx, Handoff k i] s) =
               returns s @ [(i, ViaStream, Some (stream_of k a h), None)]"
    if "loop_pc s k = LAccept" "sess_queue s k = h # q" "callers s i = CIdle" for k h q i cx
  proof -
    have "\<not> streams_closed s" using m that(1) by (cases k) (auto simp: inv_main_def)
    then show ?thesis using that self
      by (cases k)
         (simp_all add: session_accept_def loop_body_def bidi_loop_body_def uni_loop_body_def
            stream_of_def)
  qed
  show ?thesis using 1 2 3 4 5 by blast
qed

theorem every_stream_delivered_once_in_order_witness:
  "arrived (run three_streams (newConn 3 0)) Bidi = [7, 8]
   \<and> arrived (run three_streams (newConn 3 0)) Uni = [5]
   \<and> delivered (run three_streams (newConn 3 0)) =
        [(Uni, newStream 3 None (Some 5)), (Bidi, newStream 3 (Some 7) (Some 7))]
   \<and> loop_pc (run three_streams (newConn 3 0)) Bidi = LSend (newStream 3 (Some 8) (Some 8))
   \<and> callers (run three_streams (newConn 3 0)) 0 = CIdle
   \<and> distinct (map snd (delivered (run three_streams (newConn 3 0))))
   \<and> returns (run (three_streams @ [CallAcceptStream 0 None, Handoff Bidi 0]) (newConn 3 0)) =
        [(0, ViaStream, Some (newStream 3 None (Some 5)), None),
         (0, ViaStream, Some (newStream 3 (Some 7) (Some 7)), None),
         (0, ViaStream, Some (newStream 3 (Some 8) (Some 8)), None)]"
  using every_stream_delivered_once_in_order[where evs=three_streams and a=3 and sess=0]
  by (simp add: three_streams_def run_simps run_append newStream_def)

text \<open>
  C5. A call whose context is done returns through \<open><-ctx.Done()\<close> with the
  context's error and no stream; the step changes nothing but the caller's own program
  point and the record of returns. A stream that a loop is sending at that moment is
  still there: the next call, by this caller or any idle one, receives it.
\<close>

theorem cancelled_AcceptStream_takes_no_stream:
  fixes evs a sess
  defines "s \<equiv> run evs (newConn a sess)"
  shows "\<forall>i e. callers s i = CSelect (Some e) \<longrightarrow>
           step (SelectCtxDone i) s =
             s\<lparr>callers := (callers s)(i := CIdle),
               returns := returns s @ [(i, ViaCtx, None, Some e)]\<rparr>
         \<and> (\<forall>k st j cx. loop_pc s k = LSend st \<and> (j = i \<or> callers s j = CIdle) \<longrightarrow>
               returns (run [SelectCtxDone i, CallAcceptStream j cx, Handoff k j] s) =
                 returns s @ [(i, ViaCtx, None, Some e), (j, ViaStream, Some st, None)])"
proof (intro allI impI conjI)
  fix i e assume c: "callers s i = CSelect (Some e)"
  then show "step (SelectCtxDone i) s =
             s\<lparr>callers := (callers s)(i := CIdle),
               returns := returns s @ [(i, ViaCtx, None, Some e)]\<rparr>" by simp
  fix k st j cx assume h: "loop_pc s k = LSend st \<and> (j = i \<or> callers s j = CIdle)"
  have "inv_all s" unfolding s_def by (rule inv_all_run)
  then have "inv_main s" by (rule inv_parts)
  then have "\<not> streams_closed s" using h not_closed_while_sending by blast
  then show "returns (run [SelectCtxDone i, CallAcceptStream j cx, Handoff k j] s) =
                 returns s @ [(i, ViaCtx, None, Some e), (j, ViaStream, Some st, None)]"
    using c h by auto
qed

theorem cancelled_AcceptStream_takes_no_stream_witness:
  "callers (run cancelled_while_stream_waits (newConn 3 0)) 0 = CSelect (Some ContextCanceled)
   \<and> loop_pc (run cancelled_while_stream_waits (newConn 3 0)) Bidi
        = LSend (newStream 3 (Some 7) (Some 7))
   \<and> loop_pc (run (cancelled_while_stream_waits @ [SelectCtxDone 0]) (newConn 3 0)) Bidi
        = LSend (newStream 3 (Some 7) (Some 7))
   \<and> returns (run (cancelled_while_stream_waits
          @ [SelectCtxDone 0, CallAcceptStream 0 None, Handoff Bidi 0]) (newConn 3 0)) =
        [(0, ViaCtx, None, Some ContextCanceled),
         (0, ViaStream, Some (newStream 3 (Some 7) (Some 7)), None)]"
  using cancelled_AcceptStream_takes_no_stream[where evs=cancelled_while_stream_waits and a=3 and sess=0]
  by (simp add: cancelled_while_stream_waits_def run_simps run_append newStream_def)

text \<open>
  C8. Every stream delivered, or held for sending, by the unidirectional loop was built
  from a handle \<open>h\<close> that arrived as \<open>newStream(c, nil, h)\<close>: its send side is nil and
  its receive side is \<open>h\<close>. Every one from the bidirectional loop was built as
  \<open>newStream(c, h, h)\<close>: both sides are \<open>h\<close>.
\<close>

theorem delivered_stream_sides:
  fixes evs a sess
  defines "s \<equiv> run evs (newConn a sess)"
  shows "\<forall>k st. (k, st) \<in> set (delivered s) \<or> loop_pc s k = LSend st \<longrightarrow>
           (\<exists>h\<in>set (arrived s k). st = stream_of k a h \<and> st_recv st = Some h
              \<and> st_send st = (case k of Bidi \<Rightarrow> Some h | Uni \<Rightarrow> None))"
proof (intro allI impI)
  fix k st assume h: "(k, st) \<in> set (delivered s) \<or> loop_pc s k = LSend st"
  have "inv_all s" unfolding s_def by (rule inv_all_run)
  then have "inv_streams k s" by (rule inv_parts)
  moreover have "self s = a" unfolding s_def by (rule self_run)
  ultimately obtain x where "x \<in> set (arrived s k)" "st = stream_of k a x"
    using delivered_from_arrived h by blast
  then show "\<exists>h\<in>set (arrived s k). st = stream_of k a h \<and> st_recv st = Some h
              \<and> st_send st = (case k of Bidi \<Rightarrow> Some h | Uni \<Rightarrow> None)"
    by (cases k) (auto simp: stream_of_def newStream_def)
qed

theorem delivered_stream_sides_witness:
  "delivered (run one_of_each (newConn 3 0)) =
     [(Uni, \<lparr>st_conn = 3, st_send = None, st_recv = Some 5\<rparr>),
      (Bidi, \<lparr>st_conn = 3, st_send = Some 7, st_recv = Some 7\<rparr>)]
   \<and> arrived (run one_of_each (newConn 3 0)) Uni = [5]
   \<and> arrived (run one_of_each (newConn 3 0)) Bidi = [7]"
  using delivered_stream_sides[where evs=one_of_each and a=3 and sess=0]
  by (simp add: one_of_each_def run_simps newStream_def)

section \<open>Properties of the Dialer\<close>

lemma valid_slice_len: "valid_slice h s \<Longrightarrow> length (slice_elems h s) = sl_len s"
  by (auto simp: valid_slice_def slice_elems_def split: option.splits)

lemmas tls_defs = tlsConfig_def Clone_def new_tls_config_def slice_lit1_def append_slice_def
  Let_def zero_tls_config_def nil_slice_def slice_elems_def write_at_def

lemma tlsConfig_resolved:
  assumes "wf_dialer h d"
  shows "resolved_protos (tlsConfig d h) =
      (if combined_protos h d = [] then None else Some (combined_protos h d))"
  using assms valid_slice_len[of h "NextProtos (configs h (the (TLSConfig (dialers h d))))"]
  by (auto simp: wf_dialer_def resolved_protos_def combined_protos_def caller_protos_def
     tls_defs valid_slice_def
     split: option.splits prod.splits if_splits)

lemma tlsConfig_panic_msg:
  "fst (tlsConfig d h) = Panicked m \<Longrightarrow> m = ''no protocol specified''"
  by (auto simp: tls_defs split: option.splits prod.splits if_splits)

lemma tlsConfig_network: "network (snd (tlsConfig d h)) = network h"
  by (auto simp: tls_defs split: option.splits prod.splits if_splits)

lemma tlsConfig_frame: "unchanged_below h (snd (tlsConfig d h))"
  by (auto simp: unchanged_below_def tls_defs split: option.splits prod.splits if_splits)

lemma tlsConfig_fresh: "fst (tlsConfig d h) = Returned conf \<Longrightarrow> next_addr h \<le> conf"
  by (auto simp: tls_defs split: option.splits prod.splits if_splits)

lemma tlsConfig_panics:
  assumes "wf_dialer h d" "combined_protos h d = []"
  shows "fst (tlsConfig d h) = Panicked ''no protocol specified''"
proof -
  have "resolved_protos (tlsConfig d h) = None"
    using tlsConfig_resolved[OF assms(1)] assms(2) by simp
  then obtain m where "fst (tlsConfig d h) = Panicked m"
    by (cases "fst (tlsConfig d h)") (auto simp: resolved_protos_def)
  then show ?thesis using tlsConfig_panic_msg by metis
qed

lemma DialContext_panics:
  assumes "fst (tlsConfig d h) = Panicked m"
  shows "Dialer_DialContext env d c address h = (Panicked m, snd (tlsConfig d h))"
  using assms by (cases "tlsConfig d h") (simp add: Dialer_DialContext_def)

lemma ClientContext_panics:
  assumes "fst (tlsConfig d h) = Panicked m"
  shows "Dialer_ClientContext env d c pconn raddr host h = (Panicked m, snd (tlsConfig d h))"
  using assms by (cases "tlsConfig d h") (simp add: Dialer_ClientContext_def)

lemma unchanged_below_trans:
  "unchanged_below h h1 \<Longrightarrow> unchanged_below h1 h2 \<Longrightarrow> unchanged_below h h2"
  by (auto simp: unchanged_below_def)

lemma DialContext_frame: "unchanged_below h (snd (Dialer_DialContext env d c address h))"
proof -
  have "unchanged_below (snd (tlsConfig d h)) (snd (Dialer_DialContext env d c address h))"
    by (cases "tlsConfig d h")
       (auto simp: Dialer_DialContext_def quic_dial_def unchanged_below_def
             split: outcome.splits sum.splits)
  then show ?thesis using tlsConfig_frame unchanged_below_trans by blast
qed

lemma ClientContext_frame:
  "unchanged_below h (snd (Dialer_ClientContext env d c pconn raddr host h))"
proof -
  have "unchanged_below (snd (tlsConfig d h))
          (snd (Dialer_ClientContext env d c pconn raddr host h))"
    by (cases "tlsConfig d h")
       (auto simp: Dialer_ClientContext_def quic_dial_def unchanged_below_def
             split: outcome.splits sum.splits)
  then show ?thesis using tlsConfig_frame unchanged_below_trans by blast
qed

lemma unchanged_below_kept:
  assumes "wf_dialer h d" "unchanged_below h h'"
  shows "caller_state_kept h d h'"
  using assms
  by (auto simp: caller_state_kept_def unchanged_below_def wf_dialer_def caller_protos_def
        valid_slice_def slice_elems_def split: option.splits)

lemma wf_zero: "wf_dialer heap_zero 0" "combined_protos heap_zero 0 = []"
  by (simp_all add: wf_dialer_def heap_zero_def empty_heap_def zero_dialer_def
        combined_protos_def caller_protos_def)

lemma wf_h3: "wf_dialer heap_h3 0" "Protocol (dialers heap_h3 0) = ''h3-test''"
    "caller_protos heap_h3 0 = []"
  by (simp_all add: wf_dialer_def heap_h3_def empty_heap_def zero_dialer_def caller_protos_def)

lemma wf_both: "wf_dialer heap_both 0" "caller_protos heap_both 0 = [''h3'', ''hq-29'']"
  by (simp_all add: wf_dialer_def heap_both_def empty_heap_def zero_tls_config_def
        caller_protos_def valid_slice_def slice_elems_def)

text \<open>
  C6. When the caller's negotiation list combined with the Dialer's protocol identifier
  is empty, each of the four dial operations panics with "no protocol specified", whatever
  quic-go would have answered, and quic-go has not been called: the record of network
  requests is what it was.
\<close>

theorem empty_negotiation_list_panics:
  assumes "wf_dialer h d" "combined_protos h d = []"
  shows "fst (Dialer_DialContext env d c address h) = Panicked ''no protocol specified''
       \<and> network (snd (Dialer_DialContext env d c address h)) = network h
       \<and> fst (Dialer_Dial env d address h) = Panicked ''no protocol specified''
       \<and> network (snd (Dialer_Dial env d address h)) = network h
       \<and> fst (Dialer_ClientContext env d c pconn raddr host h) = Panicked ''no protocol specified''
       \<and> network (snd (Dialer_ClientContext env d c pconn raddr host h)) = network h
       \<and> fst (Dialer_Client env d pconn raddr host h) = Panicked ''no protocol specified''
       \<and> network (snd (Dialer_Client env d pconn raddr host h)) = network h"
  using tlsConfig_panics[OF assms] tlsConfig_network[of d h]
  by (simp add: DialContext_panics ClientContext_panics Dialer_Dial_def Dialer_Client_def)

theorem empty_negotiation_list_panics_witness:
  "wf_dialer heap_zero 0 \<and> combined_protos heap_zero 0 = []
   \<and> fst (Dialer_DialContext (\<lambda>_. Inr 7) 0 Background ''example.com:443'' heap_zero)
       = Panicked ''no protocol specified''
   \<and> network (snd (Dialer_DialContext (\<lambda>_. Inr 7) 0 Background ''example.com:443'' heap_zero)) = []"
  using empty_negotiation_list_panics[OF wf_zero, of "\<lambda>_. Inr 7" Background "''example.com:443''"]
    wf_zero
  by (simp add: heap_zero_def empty_heap_def)

text \<open>
  C7. With a non-empty protocol identifier, \<open>tlsConfig\<close> returns a configuration whose
  negotiation list is the identifier followed by the caller's list. The witness is the
  Dialer that has only the identifier "h3-test".
\<close>

theorem tlsConfig_prepends_protocol:
  assumes "wf_dialer h d" "Protocol (dialers h d) \<noteq> []"
  shows "resolved_protos (tlsConfig d h) = Some (Protocol (dialers h d) # caller_protos h d)"
  using tlsConfig_resolved[OF assms(1)] assms(2) by (simp add: combined_protos_def)

theorem tlsConfig_prepends_protocol_witness:
  "wf_dialer heap_h3 0 \<and> Protocol (dialers heap_h3 0) \<noteq> []
   \<and> resolved_protos (tlsConfig 0 heap_h3) = Some [''h3-test'']"
  using tlsConfig_prepends_protocol[of heap_h3 0] wf_h3 by simp

text \<open>
  C9. The package-level \<open>Dial\<close> and \<open>Client\<close> panic with "no protocol specified" for
  every argument, in every heap and whatever quic-go would answer, and quic-go has not
  been called.
\<close>

theorem package_Dial_Client_always_panic:
  "fst (Dial env address h) = Panicked ''no protocol specified''
   \<and> network (snd (Dial env address h)) = network h
   \<and> fst (Client env pconn raddr host h) = Panicked ''no protocol specified''
   \<and> network (snd (Client env pconn raddr host h)) = network h"
  by (simp add: Dial_def Client_def new_Dialer_def Dialer_Dial_def Dialer_Client_def
      Dialer_DialContext_def Dialer_ClientContext_def zero_dialer_def tls_defs)

theorem package_Dial_Client_always_panic_witness:
  "fst (Dial (\<lambda>_. Inr 7) ''example.com:443'' empty_heap) = Panicked ''no protocol specified''
   \<and> network (snd (Dial (\<lambda>_. Inr 7) ''example.com:443'' empty_heap)) = []
   \<and> fst (Client (\<lambda>_. Inr 7) 1 ''192.0.2.1:443'' ''example.com'' empty_heap)
       = Panicked ''no protocol specified''"
  using package_Dial_Client_always_panic[of "\<lambda>_. Inr 7" "''example.com:443''" empty_heap 1
      "''192.0.2.1:443''" "''example.com''"]
  by (simp add: empty_heap_def)

text \<open>
  C10. \<open>tlsConfig\<close> and the four dial operations leave every Dialer, and every
  configuration and array that existed before the call, as they were; so the Dialer's
  \<open>TLSConfig\<close> pointer and the list behind its \<open>NextProtos\<close> are unchanged. The
  configuration \<open>tlsConfig\<close> returns is a new one: a copy of the caller's, or of the
  zero configuration when the caller's is nil, except for \<open>NextProtos\<close>.
\<close>

theorem resolution_keeps_caller_state:
  assumes "wf_dialer h d"
  shows "caller_state_kept h d (snd (tlsConfig d h))
       \<and> (\<forall>conf. fst (tlsConfig d h) = Returned conf \<longrightarrow>
            next_addr h \<le> conf
            \<and> configs (snd (tlsConfig d h)) conf =
                (case TLSConfig (dialers h d) of None \<Rightarrow> zero_tls_config | Some c \<Rightarrow> configs h c)
                \<lparr>NextProtos := NextProtos (configs (snd (tlsConfig d h)) conf)\<rparr>)
       \<and> caller_state_kept h d (snd (Dialer_DialContext env d c address h))
       \<and> caller_state_kept h d (snd (Dialer_Dial env d address h))
       \<and> caller_state_kept h d (snd (Dialer_ClientContext env d c pconn raddr host h))
       \<and> caller_state_kept h d (snd (Dialer_Client env d pconn raddr host h))"
proof -
  have clone: "\<forall>conf. fst (tlsConfig d h) = Returned conf \<longrightarrow>
            next_addr h \<le> conf
            \<and> configs (snd (tlsConfig d h)) conf =
                (case TLSConfig (dialers h d) of None \<Rightarrow> zero_tls_config | Some c \<Rightarrow> configs h c)
                \<lparr>NextProtos := NextProtos (configs (snd (tlsConfig d h)) conf)\<rparr>"
    by (auto simp: tlsConfig_def Clone_def new_tls_config_def slice_lit1_def append_slice_def
          Let_def split: option.splits prod.splits if_splits)
  show ?thesis
    using clone unchanged_below_kept[OF assms tlsConfig_frame]
      unchanged_below_kept[OF assms DialContext_frame]
      unchanged_below_kept[OF assms ClientContext_frame]
    by (simp add: Dialer_Dial_def Dialer_Client_def)
qed

theorem resolution_keeps_caller_state_witness:
  "wf_dialer heap_both 0
   \<and> resolved_protos (tlsConfig 0 heap_both) = Some [''h3-test'', ''h3'', ''hq-29'']
   \<and> caller_state_kept heap_both 0 (snd (tlsConfig 0 heap_both))
   \<and> caller_protos (snd (tlsConfig 0 heap_both)) 0 = [''h3'', ''hq-29'']
   \<and> arrays (snd (tlsConfig 0 heap_both)) 2 = [''x'', ''h3'', ''hq-29'', ''y'']"
proof -
  have r: "resolved_protos (tlsConfig 0 heap_both) = Some [''h3-test'', ''h3'', ''hq-29'']"
    using tlsConfig_resolved[OF wf_both(1)] wf_both
    by (simp add: combined_protos_def heap_both_def empty_heap_def)
  have k: "caller_state_kept heap_both 0 (snd (tlsConfig 0 heap_both))"
    using resolution_keeps_caller_state[OF wf_both(1)] by simp
  have a: "arrays (snd (tlsConfig 0 heap_both)) 2 = arrays heap_both 2"
    using k by (simp add: caller_state_kept_def unchanged_below_def heap_both_def empty_heap_def)
  show ?thesis
    using r k a wf_both
    by (simp add: caller_state_kept_def heap_both_def empty_heap_def)
qed

end
